theory Spec2Isabelle
  imports Complex_Main "HOL-Library.Multiset"
begin

section \<open>Data model of \<open>ocr_handwriting.py\<close>\<close>

text \<open>
  The script reads an analysed document: pages with words and lines, and a list of style
  annotations. Offsets and lengths are Python integers (unbounded, possibly negative), so
  they are \<open>int\<close>. Attributes that the service may leave out (\<open>None\<close>) are options.
  Confidences are Python floats; they are modelled by exact rationals, so that the
  structure of the averages is faithful while rounding is abstracted away.
  A Python \<open>str\<close> is modelled by \<open>string\<close>, one \<open>char\<close> per code point (text in the
  Latin-1 range), so that \<open>length\<close> is Python's \<open>len\<close>.
\<close>

record span =
  offset :: int
  length_sp :: int

record style =
  is_handwritten :: "bool option"
  spans :: "span list option"

record word =
  content :: string
  span :: "span option"
  confidence :: "rat option"

record line =
  line_content :: string
  line_spans :: "span list option"

record page =
  words :: "word list option"
  lines :: "line list option"

text \<open>The dictionary returned by \<open>classify_spans\<close>: two sets of character offsets, under
  the keys \<open>"handwritten"\<close> and \<open>"printed"\<close>.\<close>

record span_map =
  handwritten :: "int set"
  printed :: "int set"

section \<open>Offsets covered by the styles: \<open>classify_spans\<close>\<close>

text \<open>Python's \<open>range(a, b)\<close>: the integers from \<open>a\<close> up to \<open>b - 1\<close>, empty when
  \<open>b \<le> a\<close>.\<close>

definition range_py :: "int \<Rightarrow> int \<Rightarrow> int list" where
  "range_py a b = [a..b - 1]"

text \<open>The two inner loops: every offset of every span is added to the target set.\<close>

definition add_span :: "span \<Rightarrow> int set \<Rightarrow> int set" where
  "add_span sp target = fold insert (range_py (offset sp) (offset sp + length_sp sp)) target"

definition add_spans :: "span list \<Rightarrow> int set \<Rightarrow> int set" where
  "add_spans sps target = fold add_span sps target"

text \<open>One round of the loop over the styles. A style whose \<open>is_handwritten\<close> is \<open>None\<close>
  is skipped (\<open>continue\<close>); otherwise the flag chooses the set that is extended, and a
  missing or empty \<open>spans\<close> list adds nothing.\<close>

definition classify_style :: "style \<Rightarrow> span_map \<Rightarrow> span_map" where
  "classify_style st m =
     (case is_handwritten st of
        None \<Rightarrow> m
      | Some hw \<Rightarrow>
          (case spans st of
             None \<Rightarrow> m
           | Some sps \<Rightarrow>
               if sps = [] then m
               else if hw then m\<lparr>handwritten := add_spans sps (handwritten m)\<rparr>
               else m\<lparr>printed := add_spans sps (printed m)\<rparr>))"

definition empty_map :: span_map where
  "empty_map = \<lparr>handwritten = {}, printed = {}\<rparr>"

definition classify_spans :: "style list option \<Rightarrow> span_map" where
  "classify_spans styles =
     (case styles of
        None \<Rightarrow> empty_map
      | Some sts \<Rightarrow> if sts = [] then empty_map else fold classify_style sts empty_map)"

section \<open>The verdict of a word: \<open>word_is_handwritten\<close>\<close>

text \<open>\<open>sum(1 for o in range(start, end) if o in s)\<close>.\<close>

definition count_in :: "int \<Rightarrow> int \<Rightarrow> int set \<Rightarrow> nat" where
  "count_in start end' s = length (filter (\<lambda>o'. o' \<in> s) (range_py start end'))"

text \<open>The result is Python's \<open>True\<close> (handwritten), \<open>False\<close> (printed) or \<open>None\<close>
  (unknown).\<close>

definition word_is_handwritten :: "word \<Rightarrow> span_map \<Rightarrow> bool option" where
  "word_is_handwritten w m =
     (case span w of
        None \<Rightarrow> None
      | Some sp \<Rightarrow>
          (let start = offset sp;
               end' = start + length_sp sp;
               hw_count = count_in start end' (handwritten m);
               pr_count = count_in start end' (printed m)
           in if hw_count > pr_count then Some True
              else if pr_count > hw_count then Some False
              else None))"

section \<open>Lines: the words of a line, its tag and its confidence\<close>

text \<open>The list comprehension of \<open>main\<close> that finds the words of a line: the words of the
  page that have a span whose offset lies in one of the line's spans. \<open>w.span and
  line.spans\<close> is false for a missing span and for a missing or empty list of spans.\<close>

definition in_line :: "word \<Rightarrow> line \<Rightarrow> bool" where
  "in_line w li =
     (case span w of
        None \<Rightarrow> False
      | Some wsp \<Rightarrow>
          (case line_spans li of
             None \<Rightarrow> False
           | Some ss \<Rightarrow>
               ss \<noteq> [] \<and>
               list_ex (\<lambda>s. offset wsp \<ge> offset s \<and> offset wsp < offset s + length_sp s) ss))"

definition line_words :: "word list \<Rightarrow> line \<Rightarrow> word list" where
  "line_words ws li = filter (\<lambda>w. in_line w li) ws"

text \<open>\<open>w.confidence or 0\<close>.\<close>

definition conf_or_0 :: "word \<Rightarrow> rat" where
  "conf_or_0 w = (case confidence w of None \<Rightarrow> 0 | Some c \<Rightarrow> c)"

text \<open>The two tags printed in front of a line.\<close>

datatype tag = HW | PR

text \<open>The tag is computed from the words found for the line. The quotient of the two
  counts is a Python float; the quotient of two integers is correctly rounded and \<open>0.5\<close>
  is a float, so the comparison with \<open>0.5\<close> agrees with the exact one for every count
  below \<open>2 ^ 53\<close>, and the model compares exact rationals.\<close>

definition hw_count_of :: "word list \<Rightarrow> span_map \<Rightarrow> nat" where
  "hw_count_of lws m = length (filter (\<lambda>w. word_is_handwritten w m = Some True) lws)"

definition total_in_line_of :: "word list \<Rightarrow> nat" where
  "total_in_line_of lws = (if length lws = 0 then 1 else length lws)"

definition tag_of :: "word list \<Rightarrow> span_map \<Rightarrow> tag" where
  "tag_of lws m =
     (if (of_nat (hw_count_of lws m) :: rat) / of_nat (total_in_line_of lws) > 1 / 2
      then HW else PR)"

definition mean_conf :: "word list \<Rightarrow> rat" where
  "mean_conf ws = (if ws = [] then 0 else sum_list (map conf_or_0 ws) / of_nat (length ws))"

definition words_of :: "page \<Rightarrow> word list" where
  "words_of pg = (case words pg of None \<Rightarrow> [] | Some ws \<Rightarrow> ws)"

definition lines_of :: "page \<Rightarrow> line list" where
  "lines_of pg = (case lines pg of None \<Rightarrow> [] | Some ls \<Rightarrow> ls)"

text \<open>What \<open>main\<close> computes for one line of a page: the tag and the line's confidence.\<close>

definition line_tag :: "page \<Rightarrow> line \<Rightarrow> span_map \<Rightarrow> tag" where
  "line_tag pg li m = tag_of (line_words (words_of pg) li) m"

definition line_conf :: "page \<Rightarrow> line \<Rightarrow> rat" where
  "line_conf pg li = mean_conf (line_words (words_of pg) li)"

section \<open>Pages and the summary\<close>

text \<open>The inner loop over the words of a page appends every confidence to
  \<open>all_confidences\<close> and sorts the word into one of three lists.\<close>

record word_acc =
  all_confidences :: "rat list"
  hw_words :: "word list"
  pr_words :: "word list"
  unknown_words :: "word list"

definition word_step :: "span_map \<Rightarrow> word \<Rightarrow> word_acc \<Rightarrow> word_acc" where
  "word_step m w a =
     (let a1 = a\<lparr>all_confidences := all_confidences a @ [conf_or_0 w]\<rparr>
      in case word_is_handwritten w m of
           Some True \<Rightarrow> a1\<lparr>hw_words := hw_words a1 @ [w]\<rparr>
         | Some False \<Rightarrow> a1\<lparr>pr_words := pr_words a1 @ [w]\<rparr>
         | None \<Rightarrow> a1\<lparr>unknown_words := unknown_words a1 @ [w]\<rparr>)"

text \<open>The figures printed for one page.\<close>

record page_stats =
  n_words :: int
  n_hw :: int
  n_pr :: int
  n_unknown :: int
  page_conf :: rat

text \<open>The state of the loop over the pages, and the reports of the pages seen so far.\<close>

record doc_acc =
  total_words :: int
  total_hw_words :: int
  confidences :: "rat list"
  reports :: "page_stats list"

definition page_step :: "span_map \<Rightarrow> page \<Rightarrow> doc_acc \<Rightarrow> doc_acc" where
  "page_step m pg d =
     (let ws = words_of pg;
          a = fold (word_step m) ws
                \<lparr>all_confidences = confidences d, hw_words = [], pr_words = [],
                 unknown_words = []\<rparr>
      in \<lparr>total_words = total_words d + int (length ws),
          total_hw_words = total_hw_words d + int (length (hw_words a)),
          confidences = all_confidences a,
          reports = reports d @
            [\<lparr>n_words = int (length ws), n_hw = int (length (hw_words a)),
              n_pr = int (length (pr_words a)), n_unknown = int (length (unknown_words a)),
              page_conf = mean_conf ws\<rparr>]\<rparr>)"

definition run_pages :: "span_map \<Rightarrow> page list \<Rightarrow> doc_acc" where
  "run_pages m pgs =
     fold (page_step m) pgs \<lparr>total_words = 0, total_hw_words = 0, confidences = [], reports = []\<rparr>"

text \<open>The figures of the final summary.\<close>

record summary =
  sum_total_words :: int
  sum_hw_words :: int
  sum_printed_words :: int
  sum_avg_conf :: rat

definition summarize :: "span_map \<Rightarrow> page list \<Rightarrow> summary" where
  "summarize m pgs =
     (let d = run_pages m pgs
      in \<lparr>sum_total_words = total_words d,
          sum_hw_words = total_hw_words d,
          sum_printed_words = total_words d - total_hw_words d,
          sum_avg_conf =
            (if confidences d = [] then 0
             else sum_list (confidences d) / of_nat (length (confidences d)))\<rparr>)"

section \<open>The handwritten text of a page\<close>

text \<open>The characters that \<open>str.split()\<close> and \<open>str.strip()\<close> treat as whitespace, among
  the first 256 code points.\<close>

definition is_space :: "char \<Rightarrow> bool" where
  "is_space c = (of_char c \<in> {9, 10, 11, 12, 13, 28, 29, 30, 31, 32, 133, 160 :: nat})"

text \<open>\<open>" ".join(xs)\<close>.\<close>

fun join_sp :: "string list \<Rightarrow> string" where
  "join_sp [] = []"
| "join_sp [x] = x"
| "join_sp (x # y # ys) = x @ '' '' @ join_sp (y # ys)"

text \<open>\<open>s.split()\<close>: the maximal runs of characters that are not whitespace. The first
  argument is the run read so far.\<close>

fun split_acc :: "string \<Rightarrow> string \<Rightarrow> string list" where
  "split_acc cur [] = (if cur = [] then [] else [cur])"
| "split_acc cur (c # cs) =
     (if is_space c then (if cur = [] then split_acc [] cs else cur # split_acc [] cs)
      else split_acc (cur @ [c]) cs)"

definition split_py :: "string \<Rightarrow> string list" where
  "split_py s = split_acc [] s"

text \<open>\<open>s.strip()\<close>.\<close>

definition strip_py :: "string \<Rightarrow> string" where
  "strip_py s = rev (dropWhile is_space (rev (dropWhile is_space s)))"

definition indent :: string where
  "indent = ''    ''"

text \<open>The wrapping loop, with the current line as its state. The result is the list of
  the lines that are printed, in order: a full line before each word that does not fit,
  and the last line when it is not blank.\<close>

fun wrap_loop :: "string list \<Rightarrow> string \<Rightarrow> string list" where
  "wrap_loop [] li = (if strip_py li \<noteq> [] then [li] else [])"
| "wrap_loop (w # ws) li =
     (if int (length li) + int (length w) + 1 > 80
      then li # wrap_loop ws (indent @ w @ '' '')
      else wrap_loop ws (li @ w @ '' ''))"

definition hw_on_page :: "span_map \<Rightarrow> page \<Rightarrow> word list" where
  "hw_on_page m pg = filter (\<lambda>w. word_is_handwritten w m = Some True) (words_of pg)"

text \<open>The wrapped lines printed for one page, under the page's heading.\<close>

definition transcript_page :: "span_map \<Rightarrow> page \<Rightarrow> string list" where
  "transcript_page m pg =
     (let hws = hw_on_page m pg
      in if hws = [] then []
         else wrap_loop (split_py (join_sp (map content hws))) indent)"

text \<open>The whole section is printed only when the document has a handwritten word.\<close>

definition transcript :: "span_map \<Rightarrow> page list \<Rightarrow> string list list" where
  "transcript m pgs =
     (if total_hw_words (run_pages m pgs) > 0 then map (transcript_page m) pgs else [])"

section \<open>Sets of offsets used to state the claims\<close>

definition span_offsets :: "span \<Rightarrow> int set" where
  "span_offsets sp = {offset sp ..< offset sp + length_sp sp}"

definition spans_of :: "style \<Rightarrow> span list" where
  "spans_of st = (case spans st of None \<Rightarrow> [] | Some sps \<Rightarrow> sps)"

definition styles_of :: "style list option \<Rightarrow> style list" where
  "styles_of styles = (case styles of None \<Rightarrow> [] | Some sts \<Rightarrow> sts)"

definition style_offsets :: "style \<Rightarrow> int set" where
  "style_offsets st = (\<Union>sp \<in> set (spans_of st). span_offsets sp)"

text \<open>The union of the spans of the styles whose flag is \<open>b\<close>.\<close>

definition covered :: "bool \<Rightarrow> style list option \<Rightarrow> int set" where
  "covered b styles =
     (\<Union>st \<in> {st \<in> set (styles_of styles). is_handwritten st = Some b}. style_offsets st)"

text \<open>A style without its spans of length zero or less.\<close>

definition positive_spans :: "style \<Rightarrow> style" where
  "positive_spans st = st\<lparr>spans := map_option (filter (\<lambda>sp. 0 < length_sp sp)) (spans st)\<rparr>"

text \<open>A token: a string that is not empty and has no whitespace in it. A rendered line:
  the indent, then each word of a group followed by one space.\<close>

definition is_token :: "string \<Rightarrow> bool" where
  "is_token w = (w \<noteq> [] \<and> \<not> list_ex is_space w)"


section \<open>The report of a page, without the loop\<close>

text \<open>The figures of one page as counts over its words; \<open>page_step\<close> is shown below to
  report exactly these.\<close>

definition page_report :: "span_map \<Rightarrow> page \<Rightarrow> page_stats" where
  "page_report m pg =
     \<lparr>n_words = int (length (words_of pg)),
      n_hw = int (length (filter (\<lambda>w. word_is_handwritten w m = Some True) (words_of pg))),
      n_pr = int (length (filter (\<lambda>w. word_is_handwritten w m = Some False) (words_of pg))),
      n_unknown = int (length (filter (\<lambda>w. word_is_handwritten w m = None) (words_of pg))),
      page_conf = mean_conf (words_of pg)\<rparr>"

section \<open>Example documents\<close>

text \<open>A word of confidence 1 on the range \<open>[a, a + n)\<close>.\<close>

definition ex_word :: "string \<Rightarrow> int \<Rightarrow> int \<Rightarrow> word" where
  "ex_word c a n =
     \<lparr>content = c, span = Some \<lparr>offset = a, length_sp = n\<rparr>, confidence = Some 1\<rparr>"

text \<open>A line of four words, two handwritten and two printed.\<close>

definition page_2_2 :: page where
  "page_2_2 =
     \<lparr>words = Some [ex_word ''a'' 0 2, ex_word ''b'' 3 2, ex_word ''c'' 6 2, ex_word ''d'' 9 2],
      lines = None\<rparr>"

definition map_2_2 :: span_map where
  "map_2_2 = \<lparr>handwritten = {0, 1, 3, 4}, printed = {6, 7, 9, 10}\<rparr>"

definition line_2_2 :: line where
  "line_2_2 = \<lparr>line_content = ''a b c d'', line_spans = Some [\<lparr>offset = 0, length_sp = 11\<rparr>]\<rparr>"

text \<open>A line of five words, three handwritten and two printed.\<close>

definition page_3_2 :: page where
  "page_3_2 =
     \<lparr>words = Some [ex_word ''a'' 0 2, ex_word ''b'' 3 2, ex_word ''c'' 6 2, ex_word ''d'' 9 2,
                    ex_word ''e'' 12 2],
      lines = None\<rparr>"

definition map_3_2 :: span_map where
  "map_3_2 = \<lparr>handwritten = {0, 1, 3, 4, 12, 13}, printed = {6, 7, 9, 10}\<rparr>"

definition line_3_2 :: line where
  "line_3_2 = \<lparr>line_content = ''a b c d e'', line_spans = Some [\<lparr>offset = 0, length_sp = 14\<rparr>]\<rparr>"

text \<open>A page of two words, a handwritten one and one that has no span, both on one line;
  and a page whose only word has no span.\<close>

definition word_hi :: word where
  "word_hi = \<lparr>content = ''Hi'', span = Some \<lparr>offset = 0, length_sp = 2\<rparr>,
              confidence = Some (9 / 10)\<rparr>"

definition word_nospan :: word where
  "word_nospan = \<lparr>content = ''there'', span = None, confidence = Some (1 / 2)\<rparr>"

definition line_hi :: line where
  "line_hi = \<lparr>line_content = ''Hi there'', line_spans = Some [\<lparr>offset = 0, length_sp = 8\<rparr>]\<rparr>"

definition page_hi :: page where
  "page_hi = \<lparr>words = Some [word_hi, word_nospan], lines = Some [line_hi]\<rparr>"

definition page_nospan :: page where
  "page_nospan = \<lparr>words = Some [word_nospan], lines = None\<rparr>"

text \<open>A page whose only word has a span; without styles its verdict is unknown.\<close>

definition page_plain :: page where
  "page_plain = \<lparr>words = Some [word_hi], lines = None\<rparr>"

definition map_hi :: span_map where
  "map_hi = \<lparr>handwritten = {0, 1}, printed = {}\<rparr>"

text \<open>A word of ten offsets, five of them handwritten and five printed.\<close>

definition word_tie :: word where
  "word_tie = \<lparr>content = ''tie'', span = Some \<lparr>offset = 0, length_sp = 10\<rparr>, confidence = None\<rparr>"

definition map_tie :: span_map where
  "map_tie = \<lparr>handwritten = {0, 1, 2, 3, 4}, printed = {5, 6, 7, 8, 9}\<rparr>"

text \<open>A handwritten word whose content has a space in it.\<close>

definition word_ab :: word where
  "word_ab = \<lparr>content = ''a b'', span = Some \<lparr>offset = 0, length_sp = 3\<rparr>, confidence = Some 1\<rparr>"

definition page_ab :: page where
  "page_ab = \<lparr>words = Some [word_ab], lines = None\<rparr>"

definition map_ab :: span_map where
  "map_ab = \<lparr>handwritten = {0, 1, 2}, printed = {}\<rparr>"




text \<open>Ten handwritten words of nine characters.\<close>

definition page_ten :: page where
  "page_ten =
     \<lparr>words = Some (map (\<lambda>i. ex_word ''handwrite'' (10 * int i) 9) [0..<10]), lines = None\<rparr>"

definition map_ten :: span_map where
  "map_ten = \<lparr>handwritten = {0..<100}, printed = {}\<rparr>"

section \<open>Basic facts about ranges and counts\<close>

lemma set_range_py: "set (range_py a b) = {a..<b}"
  by (auto simp: range_py_def)

lemma distinct_range_py: "distinct (range_py a b)"
  by (simp add: range_py_def)

lemma count_in_card: "count_in a b s = card ({a..<b} \<inter> s)"
proof -
  have "distinct (filter (\<lambda>o'. o' \<in> s) (range_py a b))"
    by (rule distinct_filter) (rule distinct_range_py)
  then have "count_in a b s = card (set (filter (\<lambda>o'. o' \<in> s) (range_py a b)))"
    unfolding count_in_def by (rule distinct_card [symmetric])
  also have "set (filter (\<lambda>o'. o' \<in> s) (range_py a b)) = {a..<b} \<inter> s"
    by (auto simp: set_range_py)
  finally show ?thesis .
qed

text \<open>Every span adds its whole range to the target set.\<close>

lemma add_span_eq: "add_span sp t = span_offsets sp \<union> t"
  by (simp add: add_span_def union_set_fold [symmetric] set_range_py span_offsets_def)

lemma add_spans_eq: "add_spans sps t = (\<Union>sp \<in> set sps. span_offsets sp) \<union> t"
  unfolding add_spans_def
  by (induction sps arbitrary: t) (auto simp: add_span_eq)

lemma classify_style_handwritten:
  "handwritten (classify_style st m) =
     handwritten m \<union> (if is_handwritten st = Some True then style_offsets st else {})"
  by (auto simp: classify_style_def style_offsets_def spans_of_def add_spans_eq
           split: option.splits)

lemma classify_style_printed:
  "printed (classify_style st m) =
     printed m \<union> (if is_handwritten st = Some False then style_offsets st else {})"
  by (auto simp: classify_style_def style_offsets_def spans_of_def add_spans_eq
           split: option.splits)

lemma fold_classify_handwritten:
  "handwritten (fold classify_style sts m) =
     handwritten m \<union> (\<Union>st \<in> {st \<in> set sts. is_handwritten st = Some True}. style_offsets st)"
  by (induction sts arbitrary: m) (auto simp: classify_style_handwritten)

lemma fold_classify_printed:
  "printed (fold classify_style sts m) =
     printed m \<union> (\<Union>st \<in> {st \<in> set sts. is_handwritten st = Some False}. style_offsets st)"
  by (induction sts arbitrary: m) (auto simp: classify_style_printed)

lemma handwritten_classify_spans: "handwritten (classify_spans styles) = covered True styles"
  by (auto simp: classify_spans_def covered_def styles_of_def empty_map_def
        fold_classify_handwritten split: option.splits)

lemma printed_classify_spans: "printed (classify_spans styles) = covered False styles"
  by (auto simp: classify_spans_def covered_def styles_of_def empty_map_def
        fold_classify_printed split: option.splits)

lemma covered_filter_known:
  "covered b (map_option (filter (\<lambda>st. is_handwritten st \<noteq> None)) styles) = covered b styles"
  by (cases styles) (auto simp: covered_def styles_of_def)

lemma count_in_classify_spans:
  "count_in a b (handwritten (classify_spans styles)) = card ({a..<b} \<inter> covered True styles) \<and>
   count_in a b (printed (classify_spans styles)) = card ({a..<b} \<inter> covered False styles)"
  by (simp add: count_in_card handwritten_classify_spans printed_classify_spans)

lemma is_handwritten_positive: "is_handwritten (positive_spans st) = is_handwritten st"
  by (simp add: positive_spans_def)

lemma Union_positive_spans:
  "(\<Union>sp \<in> set (filter (\<lambda>sp. 0 < length_sp sp) sps). span_offsets sp) =
   (\<Union>sp \<in> set sps. span_offsets sp)"
  by (fastforce simp: span_offsets_def)

lemma style_offsets_positive: "style_offsets (positive_spans st) = style_offsets st"
proof (cases "spans st")
  case None
  then show ?thesis by (simp add: style_offsets_def spans_of_def positive_spans_def)
next
  case (Some sps)
  then show ?thesis
    using Union_positive_spans [of sps]
    by (simp add: style_offsets_def spans_of_def positive_spans_def)
qed

lemma covered_positive:
  "covered b (map_option (map positive_spans) styles) = covered b styles"
  by (cases styles)
     (auto simp: covered_def styles_of_def style_offsets_positive is_handwritten_positive)

section \<open>Claims about the coverage and the verdict of a word\<close>

text \<open>
  C1. A word without a span has the verdict unknown (\<open>None\<close>). Otherwise let \<open>hw\<close> be the
  number of offsets of the word's range \<open>[offset, offset + length)\<close> that are in the
  handwritten set, and \<open>pr\<close> the number that are in the printed set: the verdict is
  handwritten (\<open>Some True\<close>) when \<open>hw > pr\<close>, printed (\<open>Some False\<close>) when \<open>pr > hw\<close>, and
  unknown when the two counts are equal, zero or not.
\<close>

theorem word_is_handwritten_verdict:
  "word_is_handwritten w m =
     (case span w of
        None \<Rightarrow> None
      | Some sp \<Rightarrow>
          (let hw = card ({offset sp ..< offset sp + length_sp sp} \<inter> handwritten m);
               pr = card ({offset sp ..< offset sp + length_sp sp} \<inter> printed m)
           in if hw > pr then Some True
              else if pr > hw then Some False
              else None))"
  by (simp add: word_is_handwritten_def count_in_card Let_def split: option.splits)

text \<open>A tie of five offsets against five is unknown, as is a word without a span; two
  handwritten offsets against none are handwritten.\<close>

theorem word_is_handwritten_verdict_witness:
  "card ({0..<10} \<inter> handwritten map_tie) = 5 \<and>
   card ({0..<10} \<inter> printed map_tie) = 5 \<and>
   word_is_handwritten word_tie map_tie = None \<and>
   word_is_handwritten word_nospan map_tie = None \<and>
   word_is_handwritten word_hi map_hi = Some True"
proof -
  have h: "card ({0..<10} \<inter> handwritten map_tie) = 5" by code_simp
  have p: "card ({0..<10} \<inter> printed map_tie) = 5" by code_simp
  have t: "word_is_handwritten word_tie map_tie = None"
    using word_is_handwritten_verdict [of word_tie map_tie] h p
    by (simp add: word_tie_def)
  have n: "word_is_handwritten word_nospan map_tie = None"
    using word_is_handwritten_verdict [of word_nospan map_tie]
    by (simp add: word_nospan_def)
  have a: "card ({0..<2} \<inter> handwritten map_hi) = 2" by code_simp
  have b: "card ({0..<2} \<inter> printed map_hi) = 0" by code_simp
  have s: "word_is_handwritten word_hi map_hi = Some True"
    using word_is_handwritten_verdict [of word_hi map_hi] a b
    by (simp add: word_hi_def)
  from h p t n s show ?thesis by blast
qed

text \<open>
  C3. The handwritten set is exactly the union of the ranges of all spans of the styles
  flagged handwritten, and the printed set exactly the union of the ranges of all spans of
  the styles flagged printed. An offset covered by both kinds is in both sets. Styles whose
  flag is \<open>None\<close> change nothing: dropping them gives the same two sets.
\<close>

theorem classify_spans_partition:
  "handwritten (classify_spans styles) = covered True styles \<and>
   printed (classify_spans styles) = covered False styles \<and>
   handwritten (classify_spans styles) \<inter> printed (classify_spans styles) =
     covered True styles \<inter> covered False styles \<and>
   classify_spans styles =
     classify_spans (map_option (filter (\<lambda>st. is_handwritten st \<noteq> None)) styles)"
proof -
  have hw: "handwritten (classify_spans styles) = covered True styles"
    by (rule handwritten_classify_spans)
  have pr: "printed (classify_spans styles) = covered False styles"
    by (rule printed_classify_spans)
  have "classify_spans styles =
     classify_spans (map_option (filter (\<lambda>st. is_handwritten st \<noteq> None)) styles)"
  proof (rule span_map.equality)
    show "handwritten (classify_spans styles) =
      handwritten (classify_spans (map_option (filter (\<lambda>st. is_handwritten st \<noteq> None)) styles))"
      by (simp only: handwritten_classify_spans covered_filter_known)
    show "printed (classify_spans styles) =
      printed (classify_spans (map_option (filter (\<lambda>st. is_handwritten st \<noteq> None)) styles))"
      by (simp only: printed_classify_spans covered_filter_known)
  qed simp
  with hw pr show ?thesis by simp
qed

text \<open>A handwritten style on offsets 0 to 2, a printed one on 2 to 4 and an unflagged one
  on 10 and 11: offset 2 is in both sets, 10 and 11 in none.\<close>

theorem classify_spans_partition_witness:
  "handwritten (classify_spans (Some
     [\<lparr>is_handwritten = Some True, spans = Some [\<lparr>offset = 0, length_sp = 3\<rparr>]\<rparr>,
      \<lparr>is_handwritten = Some False, spans = Some [\<lparr>offset = 2, length_sp = 3\<rparr>]\<rparr>,
      \<lparr>is_handwritten = None, spans = Some [\<lparr>offset = 10, length_sp = 2\<rparr>]\<rparr>])) = {0, 1, 2} \<and>
   printed (classify_spans (Some
     [\<lparr>is_handwritten = Some True, spans = Some [\<lparr>offset = 0, length_sp = 3\<rparr>]\<rparr>,
      \<lparr>is_handwritten = Some False, spans = Some [\<lparr>offset = 2, length_sp = 3\<rparr>]\<rparr>,
      \<lparr>is_handwritten = None, spans = Some [\<lparr>offset = 10, length_sp = 2\<rparr>]\<rparr>])) = {2, 3, 4} \<and>
   covered True (Some
     [\<lparr>is_handwritten = Some True, spans = Some [\<lparr>offset = 0, length_sp = 3\<rparr>]\<rparr>,
      \<lparr>is_handwritten = Some False, spans = Some [\<lparr>offset = 2, length_sp = 3\<rparr>]\<rparr>,
      \<lparr>is_handwritten = None, spans = Some [\<lparr>offset = 10, length_sp = 2\<rparr>]\<rparr>]) = {0, 1, 2}"
proof -
  let ?s = "Some
     [\<lparr>is_handwritten = Some True, spans = Some [\<lparr>offset = 0, length_sp = 3\<rparr>]\<rparr>,
      \<lparr>is_handwritten = Some False, spans = Some [\<lparr>offset = 2, length_sp = 3\<rparr>]\<rparr>,
      \<lparr>is_handwritten = None, spans = Some [\<lparr>offset = 10, length_sp = 2\<rparr>]\<rparr>]"
  have a: "handwritten (classify_spans ?s) = {0, 1, 2}" by code_simp
  have b: "printed (classify_spans ?s) = {2, 3, 4}" by code_simp
  have c: "handwritten (classify_spans ?s) = covered True ?s"
    using classify_spans_partition [of ?s] by (rule conjunct1)
  from c a have d: "covered True ?s = {0, 1, 2}" by (rule subst)
  show ?thesis by (rule conjI [OF a conjI [OF b d]])
qed

text \<open>
  C4. For every list of styles and every query range \<open>[start, end)\<close>, the count computed
  against the handwritten (printed) set is the number of distinct offsets of the range that
  lie in the union of the spans flagged handwritten (printed), however the spans overlap or
  touch. When the range contains the whole union, the count is the size of the union.
\<close>

theorem count_overlap_distinct_offsets:
  "count_in start end' (handwritten (classify_spans styles)) =
     card {o' \<in> covered True styles. start \<le> o' \<and> o' < end'} \<and>
   count_in start end' (printed (classify_spans styles)) =
     card {o' \<in> covered False styles. start \<le> o' \<and> o' < end'} \<and>
   (covered True styles \<subseteq> {start..<end'} \<longrightarrow>
      count_in start end' (handwritten (classify_spans styles)) = card (covered True styles)) \<and>
   (covered False styles \<subseteq> {start..<end'} \<longrightarrow>
      count_in start end' (printed (classify_spans styles)) = card (covered False styles))"
proof -
  have eq: "{o' \<in> s. start \<le> o' \<and> o' < end'} = {start..<end'} \<inter> s" for s :: "int set"
    by auto
  have full: "s \<subseteq> {start..<end'} \<Longrightarrow> {start..<end'} \<inter> s = s" for s :: "int set"
    by auto
  show ?thesis
    by (simp add: count_in_classify_spans eq full)
qed

text \<open>Three handwritten spans, two overlapping and one adjacent, cover the nine offsets 0
  to 8; the range from 0 to 9 contains them all.\<close>

theorem count_overlap_distinct_offsets_witness:
  "covered True
     (Some [\<lparr>is_handwritten = Some True,
             spans = Some [\<lparr>offset = 0, length_sp = 5\<rparr>, \<lparr>offset = 3, length_sp = 4\<rparr>,
                           \<lparr>offset = 7, length_sp = 2\<rparr>]\<rparr>]) \<subseteq> {0..<9} \<and>
   count_in 0 9 (handwritten (classify_spans
     (Some [\<lparr>is_handwritten = Some True,
             spans = Some [\<lparr>offset = 0, length_sp = 5\<rparr>, \<lparr>offset = 3, length_sp = 4\<rparr>,
                           \<lparr>offset = 7, length_sp = 2\<rparr>]\<rparr>]))) = 9"
proof -
  let ?s = "Some [\<lparr>is_handwritten = Some True,
             spans = Some [\<lparr>offset = 0, length_sp = 5\<rparr>, \<lparr>offset = 3, length_sp = 4\<rparr>,
                           \<lparr>offset = 7, length_sp = 2\<rparr>]\<rparr>]"
  have h: "covered True ?s \<subseteq> {0..<9}" by code_simp
  have c: "card (covered True ?s) = 9" by code_simp
  from count_overlap_distinct_offsets [of 0 9 ?s] h c show ?thesis by simp
qed

text \<open>
  C5, as the claim states it, fails: a style with a span of negative offset, a span of
  length zero and a span of negative length is indexed without any error. The offsets of
  the first span, negative as they are, are in the set, and the other two spans add nothing.
\<close>

theorem malformed_span_counterexample:
  "classify_spans
     (Some [\<lparr>is_handwritten = Some True,
             spans = Some [\<lparr>offset = - 3, length_sp = 2\<rparr>, \<lparr>offset = 5, length_sp = 0\<rparr>,
                           \<lparr>offset = 7, length_sp = - 4\<rparr>]\<rparr>])
   = \<lparr>handwritten = {- 3, - 2}, printed = {}\<rparr>"
  by code_simp

text \<open>
  C5, amended. The sets are built without any check of the spans. The spans of length zero
  or less are skipped silently: removing them from every style gives the same result.
  Every span of a flagged style has all the offsets of its range \<open>[offset, offset + length)\<close>
  in the set of its flag, also when the offset is negative.
\<close>

theorem malformed_span_not_rejected:
  "classify_spans (map_option (map positive_spans) styles) = classify_spans styles \<and>
   (st \<in> set (styles_of styles) \<and> is_handwritten st = Some b \<and> sp \<in> set (spans_of st) \<longrightarrow>
      {offset sp ..< offset sp + length_sp sp} \<subseteq>
        (if b then handwritten (classify_spans styles) else printed (classify_spans styles)))"
proof -
  have "classify_spans (map_option (map positive_spans) styles) = classify_spans styles"
    by (rule span_map.equality)
       (simp_all add: handwritten_classify_spans printed_classify_spans covered_positive)
  moreover have "{offset sp ..< offset sp + length_sp sp} \<subseteq> covered b styles"
    if "st \<in> set (styles_of styles)" "is_handwritten st = Some b" "sp \<in> set (spans_of st)"
    using that by (force simp: covered_def style_offsets_def span_offsets_def)
  ultimately show ?thesis
    by (cases b) (simp_all add: handwritten_classify_spans printed_classify_spans)
qed

theorem malformed_span_not_rejected_witness:
  "- 3 \<in> handwritten (classify_spans
     (Some [\<lparr>is_handwritten = Some True,
             spans = Some [\<lparr>offset = - 3, length_sp = 2\<rparr>, \<lparr>offset = 5, length_sp = 0\<rparr>]\<rparr>])) \<and>
   - 2 \<in> handwritten (classify_spans
     (Some [\<lparr>is_handwritten = Some True,
             spans = Some [\<lparr>offset = - 3, length_sp = 2\<rparr>, \<lparr>offset = 5, length_sp = 0\<rparr>]\<rparr>])) \<and>
   classify_spans (map_option (map positive_spans)
     (Some [\<lparr>is_handwritten = Some True,
             spans = Some [\<lparr>offset = - 3, length_sp = 2\<rparr>, \<lparr>offset = 5, length_sp = 0\<rparr>]\<rparr>])) =
   classify_spans
     (Some [\<lparr>is_handwritten = Some True,
             spans = Some [\<lparr>offset = - 3, length_sp = 2\<rparr>, \<lparr>offset = 5, length_sp = 0\<rparr>]\<rparr>])"
  using malformed_span_not_rejected
    [of "Some [\<lparr>is_handwritten = Some True,
             spans = Some [\<lparr>offset = - 3, length_sp = 2\<rparr>, \<lparr>offset = 5, length_sp = 0\<rparr>]\<rparr>]"
        "\<lparr>is_handwritten = Some True,
             spans = Some [\<lparr>offset = - 3, length_sp = 2\<rparr>, \<lparr>offset = 5, length_sp = 0\<rparr>]\<rparr>"
        True "\<lparr>offset = - 3, length_sp = 2\<rparr>"]
  by (auto simp: styles_of_def spans_of_def)

text \<open>
  C10. The verdict of a word that has a span depends only on which offsets of the word's
  own range \<open>[offset, offset + length)\<close> are in the two sets: two maps that agree on the
  membership of every offset of the range give the same verdict.
\<close>

theorem verdict_depends_on_own_range:
  assumes "span w = Some sp"
    and "\<forall>o' \<in> {offset sp ..< offset sp + length_sp sp}.
           (o' \<in> handwritten m1 \<longleftrightarrow> o' \<in> handwritten m2) \<and>
           (o' \<in> printed m1 \<longleftrightarrow> o' \<in> printed m2)"
  shows "word_is_handwritten w m1 = word_is_handwritten w m2"
proof -
  let ?r = "{offset sp ..< offset sp + length_sp sp}"
  from assms(2) have "?r \<inter> handwritten m1 = ?r \<inter> handwritten m2"
    and "?r \<inter> printed m1 = ?r \<inter> printed m2"
    by blast+
  with assms(1) show ?thesis
    by (simp add: word_is_handwritten_def count_in_card)
qed

text \<open>Two maps that differ only outside the range 0 to 4 of the word.\<close>

theorem verdict_depends_on_own_range_witness:
  "word_is_handwritten \<lparr>content = ''ab'', span = Some \<lparr>offset = 0, length_sp = 5\<rparr>,
                         confidence = None\<rparr>
     \<lparr>handwritten = {0, 1, 2}, printed = {3, 100}\<rparr> =
   word_is_handwritten \<lparr>content = ''ab'', span = Some \<lparr>offset = 0, length_sp = 5\<rparr>,
                         confidence = None\<rparr>
     \<lparr>handwritten = {0, 1, 2, - 7}, printed = {3}\<rparr>"
  by (rule verdict_depends_on_own_range [where sp = "\<lparr>offset = 0, length_sp = 5\<rparr>"]) auto

section \<open>Lines\<close>

lemma tag_of_iff: "tag_of lws m = HW \<longleftrightarrow> 2 * hw_count_of lws m > length lws"
proof (cases "lws = []")
  case True
  then show ?thesis by (simp add: tag_of_def hw_count_of_def total_in_line_of_def)
next
  case False
  then have pos: "(0::rat) < of_nat (length lws)" by simp
  have "(1 / 2 < (of_nat (hw_count_of lws m) :: rat) / of_nat (length lws))
        \<longleftrightarrow> (of_nat (length lws) :: rat) < 2 * of_nat (hw_count_of lws m)"
    using pos by (simp add: field_simps)
  also have "\<dots> \<longleftrightarrow> (of_nat (length lws) :: rat) < of_nat (2 * hw_count_of lws m)"
    by simp
  also have "\<dots> \<longleftrightarrow> length lws < 2 * hw_count_of lws m"
    by (rule of_nat_less_iff)
  finally show ?thesis using False
    by (simp add: tag_of_def total_in_line_of_def)
qed

lemma total_in_line_max: "total_in_line_of lws = max (length lws) 1"
  by (cases lws) (simp_all add: total_in_line_of_def max_def)

lemma tag_of_cases: "tag_of lws m = PR \<longleftrightarrow> tag_of lws m \<noteq> HW"
  by (cases "tag_of lws m") simp_all

lemma in_line_iff:
  "in_line w li \<longleftrightarrow>
     (\<exists>wsp ss. span w = Some wsp \<and> line_spans li = Some ss \<and>
        (\<exists>s \<in> set ss. offset s \<le> offset wsp \<and> offset wsp < offset s + length_sp s))"
  by (auto simp: in_line_def list_ex_iff split: option.splits)

lemma line_words_eq_filter:
  "line_words ws li =
     filter (\<lambda>w. \<exists>wsp ss. span w = Some wsp \<and> line_spans li = Some ss \<and>
                (\<exists>s \<in> set ss. offset s \<le> offset wsp \<and> offset wsp < offset s + length_sp s)) ws"
  by (simp add: line_words_def in_line_iff)

text \<open>
  C2, as the claim states it, fails: the words counted for a line are not all the words of
  the line. On the page with a handwritten word and a word without a span, both on one
  line, one word of the two is handwritten, which is not more than half, and yet the tag of
  the line is \<open>HW\<close>: the word without a span is not counted.
\<close>

theorem line_tag_counterexample:
  "words_of page_hi = [word_hi, word_nospan] \<and>
   length (filter (\<lambda>w. word_is_handwritten w map_hi = Some True) (words_of page_hi)) = 1 \<and>
   \<not> (of_nat 1 :: rat) / of_nat (max (length (words_of page_hi)) 1) > 1 / 2 \<and>
   line_tag page_hi line_hi map_hi = HW"
proof -
  have a: "words_of page_hi = [word_hi, word_nospan]" by code_simp
  have b: "length (filter (\<lambda>w. word_is_handwritten w map_hi = Some True) (words_of page_hi)) = 1"
    by code_simp
  have c: "\<not> (of_nat 1 :: rat) / of_nat (max (length (words_of page_hi)) 1) > 1 / 2"
    by (simp add: a)
  have d: "line_tag page_hi line_hi map_hi = HW" by code_simp
  from a b c d show ?thesis by blast
qed

text \<open>
  C2, amended. The words counted for a line are the words of the page that have a span
  whose offset lies in one of the line's spans. With \<open>n\<close> the number of these words and
  \<open>h\<close> the number of them whose verdict is handwritten, the tag of the line is \<open>HW\<close>
  exactly when \<open>h / max n 1\<close> is strictly greater than one half, and \<open>PR\<close> otherwise; that
  is, exactly when \<open>2 * h > n\<close>.
\<close>

theorem line_tag_majority:
  "(let lws = filter (\<lambda>w. \<exists>wsp ss. span w = Some wsp \<and> line_spans li = Some ss \<and>
                  (\<exists>s \<in> set ss. offset s \<le> offset wsp \<and> offset wsp < offset s + length_sp s))
               (words_of pg);
        h = length (filter (\<lambda>w. word_is_handwritten w m = Some True) lws);
        n = length lws
    in (line_tag pg li m = HW \<longleftrightarrow> (of_nat h :: rat) / of_nat (max n 1) > 1 / 2) \<and>
       (line_tag pg li m = PR \<longleftrightarrow> \<not> (of_nat h :: rat) / of_nat (max n 1) > 1 / 2) \<and>
       (line_tag pg li m = HW \<longleftrightarrow> 2 * h > n))"
proof -
  let ?lws = "line_words (words_of pg) li"
  have a: "tag_of ?lws m = HW \<longleftrightarrow>
      (of_nat (hw_count_of ?lws m) :: rat) / of_nat (max (length ?lws) 1) > 1 / 2"
    unfolding tag_of_def total_in_line_max by simp
  have b: "tag_of ?lws m = PR \<longleftrightarrow>
      \<not> (of_nat (hw_count_of ?lws m) :: rat) / of_nat (max (length ?lws) 1) > 1 / 2"
    unfolding tag_of_cases a ..
  have c: "tag_of ?lws m = HW \<longleftrightarrow> 2 * hw_count_of ?lws m > length ?lws"
    by (rule tag_of_iff)
  from a b c show ?thesis
    unfolding Let_def line_tag_def hw_count_of_def line_words_eq_filter [symmetric] by blast
qed

text \<open>Two handwritten words of four give \<open>PR\<close>; three of five give \<open>HW\<close>.\<close>

theorem line_tag_majority_witness:
  "line_tag page_2_2 line_2_2 map_2_2 = PR \<and> line_tag page_3_2 line_3_2 map_3_2 = HW"
proof -
  have h1: "length (filter (\<lambda>w. word_is_handwritten w map_2_2 = Some True)
              (line_words (words_of page_2_2) line_2_2)) = 2"
    by code_simp
  have n1: "length (line_words (words_of page_2_2) line_2_2) = 4"
    by code_simp
  have h2: "length (filter (\<lambda>w. word_is_handwritten w map_3_2 = Some True)
              (line_words (words_of page_3_2) line_3_2)) = 3"
    by code_simp
  have n2: "length (line_words (words_of page_3_2) line_3_2) = 5"
    by code_simp
  have "line_tag page_2_2 line_2_2 map_2_2 = HW \<longleftrightarrow> 2 * 2 > (4::nat)"
    using line_tag_majority [of line_2_2 page_2_2 map_2_2]
    unfolding Let_def line_words_eq_filter [symmetric] h1 n1 by blast
  then have "line_tag page_2_2 line_2_2 map_2_2 \<noteq> HW" by simp
  then have p: "line_tag page_2_2 line_2_2 map_2_2 = PR"
    by (cases "line_tag page_2_2 line_2_2 map_2_2") simp_all
  have "line_tag page_3_2 line_3_2 map_3_2 = HW \<longleftrightarrow> 2 * 3 > (5::nat)"
    using line_tag_majority [of line_3_2 page_3_2 map_3_2]
    unfolding Let_def line_words_eq_filter [symmetric] h2 n2 by blast
  then have q: "line_tag page_3_2 line_3_2 map_3_2 = HW" by simp
  from p q show ?thesis by (rule conjI)
qed

text \<open>
  C6, as the claim states it, fails: the words of a line are found again from the offsets,
  and a word without a span is left out. On a page with a handwritten word and a word
  without a span, the line that holds both is aggregated over the first word alone: its
  tag is \<open>HW\<close> and its confidence \<open>9/10\<close>, where the two words together would give \<open>PR\<close>
  and \<open>7/10\<close>.
\<close>

theorem line_words_counterexample:
  "line_words (words_of page_hi) line_hi = [word_hi] \<and>
   span word_nospan = None \<and>
   line_tag page_hi line_hi map_hi = HW \<and>
   tag_of [word_hi, word_nospan] map_hi = PR \<and>
   line_conf page_hi line_hi = 9 / 10 \<and>
   mean_conf [word_hi, word_nospan] = 7 / 10"
proof -
  have a: "line_words (words_of page_hi) line_hi = [word_hi]" by code_simp
  have b: "span word_nospan = None" by code_simp
  have c: "line_tag page_hi line_hi map_hi = HW" by code_simp
  have d: "tag_of [word_hi, word_nospan] map_hi = PR" by code_simp
  have e: "line_conf page_hi line_hi = 9 / 10" by code_simp
  have f: "mean_conf [word_hi, word_nospan] = 7 / 10" by code_simp
  from a b c d e f show ?thesis by blast
qed

text \<open>
  C6, amended. The tag and the confidence of a line are computed over the same list of
  words: the words of the page, in page order, that have a span whose offset lies in one of
  the line's spans. A word of the page without a span is never among them, so it counts
  neither in \<open>n\<close> nor in the mean.
\<close>

theorem line_words_by_offsets:
  "line_tag pg li m = tag_of (line_words (words_of pg) li) m \<and>
   line_conf pg li = mean_conf (line_words (words_of pg) li) \<and>
   line_words (words_of pg) li =
     filter (\<lambda>w. \<exists>wsp ss. span w = Some wsp \<and> line_spans li = Some ss \<and>
                (\<exists>s \<in> set ss. offset s \<le> offset wsp \<and> offset wsp < offset s + length_sp s))
            (words_of pg) \<and>
   (\<forall>w \<in> set (words_of pg). span w = None \<longrightarrow> w \<notin> set (line_words (words_of pg) li))"
  by (auto simp: line_tag_def line_conf_def line_words_def in_line_iff)

theorem line_words_by_offsets_witness:
  "word_nospan \<in> set (words_of page_hi) \<and> span word_nospan = None \<and>
   word_nospan \<notin> set (line_words (words_of page_hi) line_hi)"
proof -
  have a: "word_nospan \<in> set (words_of page_hi)" by (simp add: words_of_def page_hi_def)
  have b: "span word_nospan = None" by (simp add: word_nospan_def)
  from line_words_by_offsets [of page_hi line_hi map_hi] a b show ?thesis by blast
qed

section \<open>The summary\<close>

lemma word_step_fields:
  "all_confidences (word_step m w a) = all_confidences a @ [conf_or_0 w] \<and>
   hw_words (word_step m w a) =
     hw_words a @ (if word_is_handwritten w m = Some True then [w] else []) \<and>
   pr_words (word_step m w a) =
     pr_words a @ (if word_is_handwritten w m = Some False then [w] else []) \<and>
   unknown_words (word_step m w a) =
     unknown_words a @ (if word_is_handwritten w m = None then [w] else [])"
  by (cases "word_is_handwritten w m") (auto simp: word_step_def Let_def)

lemma fold_word_step:
  "all_confidences (fold (word_step m) ws a) = all_confidences a @ map conf_or_0 ws \<and>
   hw_words (fold (word_step m) ws a) =
     hw_words a @ filter (\<lambda>w. word_is_handwritten w m = Some True) ws \<and>
   pr_words (fold (word_step m) ws a) =
     pr_words a @ filter (\<lambda>w. word_is_handwritten w m = Some False) ws \<and>
   unknown_words (fold (word_step m) ws a) =
     unknown_words a @ filter (\<lambda>w. word_is_handwritten w m = None) ws"
proof (induction ws arbitrary: a)
  case Nil
  show ?case by simp
next
  case (Cons w ws)
  have step: "fold (word_step m) (w # ws) a = fold (word_step m) ws (word_step m w a)"
    by simp
  show ?case
    unfolding step
    using Cons [of "word_step m w a"] word_step_fields [of m w a]
    by simp
qed

lemma page_step_fields:
  "total_words (page_step m pg d) = total_words d + n_words (page_report m pg) \<and>
   total_hw_words (page_step m pg d) = total_hw_words d + n_hw (page_report m pg) \<and>
   confidences (page_step m pg d) = confidences d @ map conf_or_0 (words_of pg) \<and>
   reports (page_step m pg d) = reports d @ [page_report m pg]"
  by (simp add: page_step_def Let_def fold_word_step page_report_def)

lemma fold_page_step:
  "total_words (fold (page_step m) pgs d) =
     total_words d + sum_list (map (\<lambda>pg. n_words (page_report m pg)) pgs) \<and>
   total_hw_words (fold (page_step m) pgs d) =
     total_hw_words d + sum_list (map (\<lambda>pg. n_hw (page_report m pg)) pgs) \<and>
   confidences (fold (page_step m) pgs d) =
     confidences d @ concat (map (\<lambda>pg. map conf_or_0 (words_of pg)) pgs) \<and>
   reports (fold (page_step m) pgs d) = reports d @ map (page_report m) pgs"
proof (induction pgs arbitrary: d)
  case Nil
  show ?case by simp
next
  case (Cons pg pgs)
  have step: "fold (page_step m) (pg # pgs) d = fold (page_step m) pgs (page_step m pg d)"
    by simp
  show ?case
    unfolding step
    using Cons [of "page_step m pg d"] page_step_fields [of m pg d]
    by simp
qed

lemma run_pages_eq:
  "total_words (run_pages m pgs) = sum_list (map (\<lambda>pg. n_words (page_report m pg)) pgs) \<and>
   total_hw_words (run_pages m pgs) = sum_list (map (\<lambda>pg. n_hw (page_report m pg)) pgs) \<and>
   confidences (run_pages m pgs) = concat (map (\<lambda>pg. map conf_or_0 (words_of pg)) pgs) \<and>
   reports (run_pages m pgs) = map (page_report m) pgs"
  unfolding run_pages_def
  using fold_page_step [of m pgs "\<lparr>total_words = 0, total_hw_words = 0, confidences = [], reports = []\<rparr>"]
  by simp

lemma verdict_partition:
  "length ws = length (filter (\<lambda>w. word_is_handwritten w m = Some True) ws)
     + length (filter (\<lambda>w. word_is_handwritten w m = Some False) ws)
     + length (filter (\<lambda>w. word_is_handwritten w m = None) ws)"
proof (induction ws)
  case Nil
  show ?case by simp
next
  case (Cons w ws)
  then show ?case by (cases "word_is_handwritten w m") auto
qed

lemma page_report_partition:
  "n_words (page_report m pg) =
     n_hw (page_report m pg) + n_pr (page_report m pg) + n_unknown (page_report m pg)"
  using verdict_partition [of "words_of pg" m] by (simp add: page_report_def)

lemma sum_list_report_partition:
  "sum_list (map (\<lambda>pg. n_words (page_report m pg)) pgs) =
     sum_list (map (\<lambda>pg. n_hw (page_report m pg)) pgs) +
     (sum_list (map (\<lambda>pg. n_pr (page_report m pg)) pgs) +
      sum_list (map (\<lambda>pg. n_unknown (page_report m pg)) pgs))"
  by (induction pgs) (simp_all add: page_report_partition)

text \<open>
  C7. The counts of the summary should be the sums of the pages' counts. The code diverges
  for the printed words. For a document without styles and one page of one word, the page
  reports no printed word and one unclassified word, and the summary reports one printed
  word: it prints the total minus the handwritten words under that name.
\<close>

theorem summary_printed_divergence:
  "map n_pr (reports (run_pages (classify_spans None) [page_plain])) = [0] \<and>
   map n_unknown (reports (run_pages (classify_spans None) [page_plain])) = [1] \<and>
   sum_printed_words (summarize (classify_spans None) [page_plain]) = 1"
proof -
  have a: "map n_pr (reports (run_pages (classify_spans None) [page_plain])) = [0]" by code_simp
  have b: "map n_unknown (reports (run_pages (classify_spans None) [page_plain])) = [1]" by code_simp
  have c: "sum_printed_words (summarize (classify_spans None) [page_plain]) = 1" by code_simp
  from a b c show ?thesis by blast
qed

text \<open>What holds of the summary for every document: there is one report per page; the
  total and the handwritten words are the sums of the pages' counts; the figure printed as
  printed words is the sum of the pages' printed and unknown words; and the mean confidence
  is computed once, over the confidences of all words of all pages in order (0 when there
  is no word).\<close>

lemma summary_figures:
  "(let rs = reports (run_pages m pgs);
        s = summarize m pgs;
        cs = concat (map (\<lambda>pg. map conf_or_0 (words_of pg)) pgs)
    in length rs = length pgs \<and>
       sum_total_words s = sum_list (map n_words rs) \<and>
       sum_hw_words s = sum_list (map n_hw rs) \<and>
       sum_printed_words s = sum_list (map n_pr rs) + sum_list (map n_unknown rs) \<and>
       (\<forall>r \<in> set rs. n_words r = n_hw r + n_pr r + n_unknown r) \<and>
       sum_avg_conf s = (if cs = [] then 0 else sum_list cs / of_nat (length cs)))"
  using sum_list_report_partition [of m pgs]
  by (auto simp: Let_def summarize_def run_pages_eq o_def page_report_partition)

text \<open>Two pages of two words and of one word: the mean over the three words is \<open>19/30\<close>,
  not the mean \<open>3/5\<close> of the two pages' means.\<close>

lemma summary_figures_example:
  "sum_total_words (summarize map_hi [page_hi, page_nospan]) = 3 \<and>
   sum_hw_words (summarize map_hi [page_hi, page_nospan]) = 1 \<and>
   sum_avg_conf (summarize map_hi [page_hi, page_nospan]) = 19 / 30 \<and>
   map page_conf (reports (run_pages map_hi [page_hi, page_nospan])) = [7 / 10, 1 / 2]"
proof -
  have r: "reports (run_pages map_hi [page_hi, page_nospan]) =
      [\<lparr>n_words = 2, n_hw = 1, n_pr = 0, n_unknown = 1, page_conf = 7 / 10\<rparr>,
       \<lparr>n_words = 1, n_hw = 0, n_pr = 0, n_unknown = 1, page_conf = 1 / 2\<rparr>]"
    by code_simp
  have c: "concat (map (\<lambda>pg. map conf_or_0 (words_of pg)) [page_hi, page_nospan]) =
      [9 / 10, 1 / 2, 1 / 2]"
    by code_simp
  from summary_figures [of map_hi "[page_hi, page_nospan]"] show ?thesis
    unfolding Let_def r c by simp
qed

section \<open>The handwritten text\<close>

lemma is_space_blank: "is_space CHR '' ''"
  by (simp add: is_space_def)

lemma split_acc_space:
  "is_space c \<Longrightarrow> split_acc cur (xs @ c # ys) = split_acc cur xs @ split_acc [] ys"
  by (induction xs arbitrary: cur) auto

lemma split_acc_no_space:
  "\<not> list_ex is_space w \<Longrightarrow> split_acc cur w = (if cur @ w = [] then [] else [cur @ w])"
  by (induction w arbitrary: cur) auto

lemma split_py_token: "is_token w \<Longrightarrow> split_py w = [w]"
  by (simp add: split_py_def is_token_def split_acc_no_space)

lemma split_py_append_space:
  assumes "is_space c"
  shows "split_py (xs @ c # ys) = split_py xs @ split_py ys"
  using assms by (simp add: split_py_def split_acc_space)

lemma split_py_Nil: "split_py [] = []"
  by (simp add: split_py_def)

lemma split_py_snoc_space: "is_space c \<Longrightarrow> split_py (xs @ [c]) = split_py xs"
  using split_py_append_space [of c xs "[]"] by (simp add: split_py_Nil)

lemma split_py_ends_space:
  assumes "l \<noteq> []" "is_space (last l)"
  shows "split_py (l @ ys) = split_py l @ split_py ys"
proof -
  from assms(1) have l: "butlast l @ [last l] = l" by simp
  have "split_py ((butlast l @ [last l]) @ ys) = split_py (butlast l @ last l # ys)"
    by simp
  also have "\<dots> = split_py (butlast l) @ split_py ys"
    using assms(2) by (rule split_py_append_space)
  also have "split_py (butlast l) = split_py (butlast l @ [last l])"
    using assms(2) by (rule split_py_snoc_space [symmetric])
  finally show ?thesis unfolding l .
qed

lemma split_py_token_space: "is_token w \<Longrightarrow> split_py (w @ '' '') = [w]"
  using split_py_snoc_space [OF is_space_blank, of w] by (simp add: split_py_token)

lemma split_py_indent: "split_py indent = []"
  by (simp add: indent_def split_py_def is_space_blank)

lemma split_acc_Nil_iff: "split_acc cur s = [] \<longleftrightarrow> cur = [] \<and> (\<forall>c \<in> set s. is_space c)"
  by (induction s arbitrary: cur) auto

lemma strip_py_Nil_iff: "strip_py s = [] \<longleftrightarrow> (\<forall>c \<in> set s. is_space c)"
proof -
  have "strip_py s = [] \<longleftrightarrow> dropWhile is_space (rev (dropWhile is_space s)) = []"
    by (simp add: strip_py_def)
  also have "\<dots> \<longleftrightarrow> (\<forall>c \<in> set (dropWhile is_space s). is_space c)"
    by (simp only: dropWhile_eq_Nil_conv set_rev)
  also have "\<dots> \<longleftrightarrow> dropWhile is_space (dropWhile is_space s) = []"
    by (simp only: dropWhile_eq_Nil_conv)
  also have "\<dots> \<longleftrightarrow> dropWhile is_space s = []"
    by (simp only: dropWhile_idem)
  also have "\<dots> \<longleftrightarrow> (\<forall>c \<in> set s. is_space c)"
    by (simp only: dropWhile_eq_Nil_conv)
  finally show ?thesis .
qed

lemma strip_py_split_py: "strip_py s = [] \<longleftrightarrow> split_py s = []"
  by (simp add: strip_py_Nil_iff split_py_def split_acc_Nil_iff)

lemma split_acc_tokens:
  "\<not> list_ex is_space cur \<Longrightarrow> t \<in> set (split_acc cur s) \<Longrightarrow> is_token t"
proof (induction s arbitrary: cur)
  case Nil
  then show ?case by (auto simp: is_token_def split: if_splits)
next
  case (Cons c s)
  show ?case
  proof (cases "is_space c")
    case True
    with Cons.prems have "t = cur \<and> cur \<noteq> [] \<or> t \<in> set (split_acc [] s)"
      by (auto split: if_splits)
    then show ?thesis
    proof
      assume "t = cur \<and> cur \<noteq> []"
      with Cons.prems(1) show ?thesis by (simp add: is_token_def)
    next
      assume "t \<in> set (split_acc [] s)"
      then show ?thesis by (rule Cons.IH [rotated]) simp
    qed
  next
    case False
    with Cons.prems have "t \<in> set (split_acc (cur @ [c]) s)" by simp
    moreover from False Cons.prems(1) have "\<not> list_ex is_space (cur @ [c])" by simp
    ultimately show ?thesis by (rule Cons.IH [rotated])
  qed
qed

lemma split_py_tokens: "list_all is_token (split_py s)"
  unfolding list_all_iff split_py_def
  using split_acc_tokens [of "[]" _ s] by auto

lemma split_py_join_sp: "list_all is_token ts \<Longrightarrow> split_py (join_sp ts) = ts"
proof (induction ts rule: join_sp.induct)
  case 1
  show ?case by (simp add: split_py_Nil)
next
  case (2 x)
  then show ?case by (simp add: split_py_token)
next
  case (3 x y ys)
  have "split_py (join_sp (x # y # ys)) = split_py (x @ CHR '' '' # join_sp (y # ys))"
    by simp
  also have "\<dots> = split_py x @ split_py (join_sp (y # ys))"
    by (rule split_py_append_space) (rule is_space_blank)
  also have "\<dots> = x # y # ys"
    using 3 by (simp add: split_py_token)
  finally show ?case .
qed

lemma wrap_loop_split:
  "list_all is_token ws \<Longrightarrow> l \<noteq> [] \<Longrightarrow> is_space (last l) \<Longrightarrow>
     split_py (concat (wrap_loop ws l)) = split_py l @ ws"
proof (induction ws arbitrary: l)
  case Nil
  then show ?case
    using strip_py_split_py [of l] by (auto simp: split_py_Nil)
next
  case (Cons w ws)
  from Cons.prems(1) have tw: "is_token w" and tws: "list_all is_token ws" by simp_all
  have fresh: "split_py (indent @ w @ '' '') = [w]"
  proof -
    have "split_py (indent @ w @ '' '') = split_py indent @ split_py (w @ '' '')"
      by (rule split_py_ends_space) (simp_all add: indent_def is_space_blank)
    then show ?thesis using tw by (simp add: split_py_indent split_py_token_space)
  qed
  show ?case
  proof (cases "int (length l) + int (length w) + 1 > 80")
    case True
    then have "concat (wrap_loop (w # ws) l) = l @ concat (wrap_loop ws (indent @ w @ '' ''))"
      by simp
    moreover have "split_py (concat (wrap_loop ws (indent @ w @ '' ''))) = [w] @ ws"
      using Cons.IH [OF tws, of "indent @ w @ '' ''"] fresh by (simp add: is_space_blank)
    ultimately show ?thesis
      using split_py_ends_space [OF Cons.prems(2,3)] by simp
  next
    case False
    then have "wrap_loop (w # ws) l = wrap_loop ws (l @ w @ '' '')" by simp
    moreover have "split_py (concat (wrap_loop ws (l @ w @ '' ''))) = split_py (l @ w @ '' '') @ ws"
      using Cons.IH [OF tws, of "l @ w @ '' ''"] by (simp add: is_space_blank)
    moreover have "split_py (l @ w @ '' '') = split_py l @ [w]"
    proof -
      have "split_py (l @ w @ '' '') = split_py l @ split_py (w @ '' '')"
        by (rule split_py_ends_space [OF Cons.prems(2,3)])
      then show ?thesis using tw by (simp add: split_py_token_space)
    qed
    ultimately show ?thesis by simp
  qed
qed

lemma transcript_page_split:
  "split_py (concat (transcript_page m pg)) = split_py (join_sp (map content (hw_on_page m pg)))"
proof (cases "hw_on_page m pg = []")
  case True
  then show ?thesis by (simp add: transcript_page_def split_py_Nil)
next
  case False
  have "split_py (concat (wrap_loop (split_py (join_sp (map content (hw_on_page m pg)))) indent))
      = split_py indent @ split_py (join_sp (map content (hw_on_page m pg)))"
    by (rule wrap_loop_split) (simp_all add: split_py_tokens indent_def is_space_blank)
  then show ?thesis using False by (simp add: transcript_page_def Let_def split_py_indent)
qed

text \<open>The section of the handwritten text is skipped when the document has no handwritten
  word; no page has a line to print then, so the lines of the section are those of its
  pages.\<close>

lemma transcript_gate: "concat (transcript m pgs) = concat (map (transcript_page m) pgs)"
proof (cases "total_hw_words (run_pages m pgs) > 0")
  case True
  then show ?thesis by (simp add: transcript_def)
next
  case False
  have nonneg: "\<forall>x \<in> set (map (\<lambda>pg. n_hw (page_report m pg)) pgs). 0 \<le> x"
    by (simp add: page_report_def)
  have "0 \<le> sum_list (map (\<lambda>pg. n_hw (page_report m pg)) pgs)"
    by (rule sum_list_nonneg) (use nonneg in blast)
  with False have "sum_list (map (\<lambda>pg. n_hw (page_report m pg)) pgs) = 0"
    by (simp add: run_pages_eq)
  with nonneg have "\<forall>x \<in> set (map (\<lambda>pg. n_hw (page_report m pg)) pgs). x = 0"
    by (simp only: sum_list_nonneg_eq_0_iff)
  then have "\<forall>pg \<in> set pgs. hw_on_page m pg = []"
    by (simp add: page_report_def hw_on_page_def)
  then have "\<forall>pg \<in> set pgs. transcript_page m pg = []"
    by (simp add: transcript_page_def)
  then have "concat (map (transcript_page m) pgs) = []" by simp
  with False show ?thesis by (simp add: transcript_def)
qed







text \<open>
  C8, as the claim states it, fails: the text of the handwritten words is split at
  whitespace again before it is wrapped, so a word whose content has a space in it comes
  out as two words.
\<close>

theorem transcript_words_counterexample:
  "map content (hw_on_page map_ab page_ab) = [''a b''] \<and>
   transcript_page map_ab page_ab = [''    a b ''] \<and>
   split_py (concat (transcript_page map_ab page_ab)) = [''a'', ''b'']"
proof -
  have a: "map content (hw_on_page map_ab page_ab) = [''a b'']" by code_simp
  have b: "transcript_page map_ab page_ab = [''    a b '']" by code_simp
  have c: "split_py (concat (transcript_page map_ab page_ab)) = [''a'', ''b'']" by code_simp
  from a b c show ?thesis by blast
qed

text \<open>
  C8, amended. For every page, the lines printed for it, put together and split at
  whitespace, give the whitespace-separated words of the contents of the page's handwritten
  words joined by single spaces, in order. When every such content is a token (not empty,
  no whitespace in it), that is exactly the list of the contents: no word is split, dropped
  or repeated. A page without a handwritten word has no line.
\<close>

theorem transcript_words:
  "split_py (concat (transcript_page m pg)) =
     split_py (join_sp (map content (hw_on_page m pg))) \<and>
   (list_all is_token (map content (hw_on_page m pg)) \<longrightarrow>
      split_py (concat (transcript_page m pg)) = map content (hw_on_page m pg)) \<and>
   (hw_on_page m pg = [] \<longrightarrow> transcript_page m pg = [])"
proof (intro conjI impI)
  show "split_py (concat (transcript_page m pg)) =
     split_py (join_sp (map content (hw_on_page m pg)))"
    by (rule transcript_page_split)
next
  assume "list_all is_token (map content (hw_on_page m pg))"
  then show "split_py (concat (transcript_page m pg)) = map content (hw_on_page m pg)"
    unfolding transcript_page_split by (rule split_py_join_sp)
next
  assume "hw_on_page m pg = []"
  then show "transcript_page m pg = []" by (simp add: transcript_page_def)
qed

text \<open>Ten handwritten words of nine characters are wrapped into two lines, and all ten come
  back.\<close>

theorem transcript_words_witness:
  "list_all is_token (map content (hw_on_page map_ten page_ten)) \<and>
   length (transcript_page map_ten page_ten) = 2 \<and>
   split_py (concat (transcript_page map_ten page_ten)) = replicate 10 ''handwrite''"
proof -
  have t: "list_all is_token (map content (hw_on_page map_ten page_ten))" by code_simp
  have c: "map content (hw_on_page map_ten page_ten) = replicate 10 ''handwrite''" by code_simp
  have n: "length (transcript_page map_ten page_ten) = 2" by code_simp
  from transcript_words [of map_ten page_ten] t
  have "split_py (concat (transcript_page map_ten page_ten)) =
      map content (hw_on_page map_ten page_ten)"
    by blast
  with c have "split_py (concat (transcript_page map_ten page_ten)) = replicate 10 ''handwrite''"
    by (simp only:)
  with t n show ?thesis by blast
qed




end
